theory Spec2Isabelle
  imports Main "HOL-Library.AList"
begin

section \<open>JavaScript values\<close>

text \<open>
  The payloads handled by \<^verbatim>\<open>foxbox.js\<close> are JSON documents (hub responses, cached
  records) plus \<^verbatim>\<open>undefined\<close>, which is what reading an absent property yields.
  An object is an association list from property names to values, in insertion order
  (a lookup takes the first entry of a name); a nested object also carries the address
  of its allocation, because \<^verbatim>\<open>===\<close> on objects compares identity, not contents.
  Numbers are the integers. An array, which the functions below only pass along, is
  written as an object too.
\<close>

datatype jsval =
    JUndefined
  | JNull
  | JBool bool
  | JNum int
  | JStr string
  | JObj nat "(string \<times> jsval) list"

type_synonym jsobj = "(string \<times> jsval) list"

datatype error = TypeError | Error string

text \<open>\<^verbatim>\<open>a === b\<close>\<close>

fun strict_eq :: "jsval \<Rightarrow> jsval \<Rightarrow> bool" where
  "strict_eq JUndefined JUndefined = True"
| "strict_eq JNull JNull = True"
| "strict_eq (JBool a) (JBool b) = (a = b)"
| "strict_eq (JNum a) (JNum b) = (a = b)"
| "strict_eq (JStr a) (JStr b) = (a = b)"
| "strict_eq (JObj a _) (JObj b _) = (a = b)"
| "strict_eq _ _ = False"

text \<open>\<^verbatim>\<open>!!v\<close>\<close>

fun truthy :: "jsval \<Rightarrow> bool" where
  "truthy JUndefined = False"
| "truthy JNull = False"
| "truthy (JBool b) = b"
| "truthy (JNum n) = (n \<noteq> 0)"
| "truthy (JStr s) = (s \<noteq> [])"
| "truthy (JObj _ _) = True"

text \<open>\<^verbatim>\<open>o[k]\<close> and \<^verbatim>\<open>o.k\<close> on an object: the value, or \<^verbatim>\<open>undefined\<close> when absent.\<close>

definition get :: "jsobj \<Rightarrow> string \<Rightarrow> jsval" where
  "get ps k = (case map_of ps k of None \<Rightarrow> JUndefined | Some v \<Rightarrow> v)"

definition keys :: "jsobj \<Rightarrow> string list" where
  "keys ps = map fst ps"

text \<open>Decimal rendering of a number, as string conversion of an index or a port does.\<close>

definition digit :: "nat \<Rightarrow> char" where
  "digit d = ''0123456789'' ! d"

fun dec :: "nat \<Rightarrow> string" where
  "dec n = (if n < 10 then [digit n] else dec (n div 10) @ [digit (n mod 10)])"

declare dec.simps [simp del]

text \<open>
  The properties a \<^verbatim>\<open>for (prop in v)\<close> loop visits, in order: the keys of an object,
  the indices of a string, nothing for any other value (\<^verbatim>\<open>undefined\<close> and
  \<^verbatim>\<open>null\<close> included).
\<close>

fun for_in_keys :: "jsval \<Rightarrow> string list" where
  "for_in_keys (JObj _ ps) = keys ps"
| "for_in_keys (JStr s) = map dec [0..<length s]"
| "for_in_keys _ = []"

text \<open>
  \<^verbatim>\<open>v[prop]\<close> for a property the loop has produced: an object's value, or the
  one-character string at that index of a string.
\<close>

fun read_prop :: "jsval \<Rightarrow> string \<Rightarrow> jsval" where
  "read_prop (JObj _ ps) k = get ps k"
| "read_prop (JStr s) k =
     (case find (\<lambda>i. dec i = k) [0..<length s] of
        None \<Rightarrow> JUndefined
      | Some i \<Rightarrow> JStr [s ! i])"
| "read_prop _ k = JUndefined"

text \<open>
  \<^verbatim>\<open>prop in v\<close>: a TypeError unless \<^verbatim>\<open>v\<close> is an object. Only the object's own
  properties are looked at: what it inherits from its prototype are functions, which
  are strictly equal to no value of a JSON document, so that the comparison below
  answers false for such a name either way.
\<close>

fun has_in :: "string \<Rightarrow> jsval \<Rightarrow> error + bool" where
  "has_in k (JObj _ ps) = Inr (k \<in> set (keys ps))"
| "has_in k _ = Inl TypeError"

section \<open>isSimilar\<close>

text \<open>
  \<^verbatim>\<open>
  const isSimilar = (objectA, objectB) => {
    for (let prop in objectA) {
      if (!(prop in objectB) || objectA[prop] !== objectB[prop]) {
        return false;
      }
    }
    return true;
  };
  \<close>
  The loop over the properties that remain to be visited.
\<close>

fun isSimilar_loop :: "string list \<Rightarrow> jsval \<Rightarrow> jsval \<Rightarrow> error + bool" where
  "isSimilar_loop [] objectA objectB = Inr True"
| "isSimilar_loop (prop # rest) objectA objectB =
     (case has_in prop objectB of
        Inl e \<Rightarrow> Inl e
      | Inr present \<Rightarrow>
          if \<not> present \<or> \<not> strict_eq (read_prop objectA prop) (read_prop objectB prop)
          then Inr False
          else isSimilar_loop rest objectA objectB)"

definition isSimilar :: "jsval \<Rightarrow> jsval \<Rightarrow> error + bool" where
  "isSimilar objectA objectB = isSimilar_loop (for_in_keys objectA) objectA objectB"

section \<open>Operation value type\<close>

text \<open>
  \<^verbatim>\<open>
  [p.getOperationValueType](operationKind) {
    if (!operationKind) { throw new Error('Operation kind is not defined!'); }
    if (typeof operationKind === 'object') { return operationKind.typ; }
    switch (operationKind) {
      case 'TakeSnapshot': return 'Unit';
      default: return operationKind;
    }
  }
  \<close>
\<close>

fun typeof_is_object :: "jsval \<Rightarrow> bool" where
  "typeof_is_object (JObj _ _) = True"
| "typeof_is_object JNull = True"
| "typeof_is_object _ = False"

definition getOperationValueType :: "jsval \<Rightarrow> error + jsval" where
  "getOperationValueType operationKind =
     (if \<not> truthy operationKind then Inl (Error ''Operation kind is not defined!'')
      else if typeof_is_object operationKind then Inr (read_prop operationKind ''typ'')
      else if strict_eq operationKind (JStr ''TakeSnapshot'') then Inr (JStr ''Unit'')
      else Inr operationKind)"

section \<open>Fetching and reconciling services\<close>

text \<open>
  \<^verbatim>\<open>
  [p.fetchServices]() {
    return this[p.net].fetchJSON(`.../services`).then((services) => {
      return services.map((service) => {
        return { id: service.id, type: service.adapter, getters: service.getters,
                 setters: service.setters, properties: service.properties };
      });
    });
  }
  \<close>
  The argument is the parsed response of the hub, an array of objects.
\<close>

definition fetchServices :: "jsobj list \<Rightarrow> jsobj list" where
  "fetchServices services =
     map (\<lambda>service.
            [(''id'', get service ''id''),
             (''type'', get service ''adapter''),
             (''getters'', get service ''getters''),
             (''setters'', get service ''setters''),
             (''properties'', get service ''properties'')])
         services"

text \<open>
  \<^verbatim>\<open>Object.assign(target, source)\<close>: every property of the source, in order, is
  written to the target, which is changed in place and returned.
\<close>

definition object_assign :: "jsobj \<Rightarrow> jsobj \<Rightarrow> jsobj" where
  "object_assign target source =
     fold (\<lambda>k t. AList.update k (get source k) t) (keys source) target"

text \<open>
  \<^verbatim>\<open>storedServices.find(s => s.id === fetchedService.id)\<close>, as the position of the
  service found: \<^verbatim>\<open>Object.assign\<close> later writes to that very object.
\<close>

fun find_service :: "jsobj list \<Rightarrow> jsval \<Rightarrow> nat option" where
  "find_service [] fid = None"
| "find_service (s # ss) fid =
     (if strict_eq (get s ''id'') fid then Some 0
      else map_option Suc (find_service ss fid))"

datatype event = ServiceStateChange jsobj | ServiceChange "jsobj list"

text \<open>
  What one polling cycle reads and writes: the array resolved by \<^verbatim>\<open>getServices()\<close>
  (its objects are mutated by the merge), the events handed to \<^verbatim>\<open>_dispatchEvent\<close>
  and the records handed to \<^verbatim>\<open>this[p.db].setService\<close>, oldest first. An event
  holds the record as it was when dispatched.
\<close>

record cycle =
  storedServices :: "jsobj list"
  events :: "event list"
  db_setService :: "jsobj list"

text \<open>
  The callback of \<^verbatim>\<open>fetchedServices.reduce\<close>. A TypeError raised by the comparison
  leaves the callback at once; what was dispatched before stays dispatched.
\<close>

definition reduce_step :: "cycle \<Rightarrow> bool \<Rightarrow> jsobj \<Rightarrow> cycle \<times> (error + bool)" where
  "reduce_step c hasNewServices fetchedService =
     (case find_service (storedServices c) (get fetchedService ''id'') of
        None \<Rightarrow>
          (c\<lparr>events := events c @ [ServiceStateChange fetchedService],
             db_setService := db_setService c @ [fetchedService]\<rparr>,
           Inr True)
      | Some i \<Rightarrow>
          (case isSimilar (get fetchedService ''state'')
                          (get (storedServices c ! i) ''state'') of
             Inl e \<Rightarrow> (c, Inl e)
           | Inr True \<Rightarrow> (c, Inr hasNewServices)
           | Inr False \<Rightarrow>
               (let merged = object_assign (storedServices c ! i) fetchedService
                in (c\<lparr>storedServices := (storedServices c)[i := merged],
                      events := events c @ [ServiceStateChange merged],
                      db_setService := db_setService c @ [merged]\<rparr>,
                    Inr hasNewServices))))"

fun reduce_services :: "jsobj list \<Rightarrow> cycle \<Rightarrow> bool \<Rightarrow> cycle \<times> (error + bool)" where
  "reduce_services [] c hasNewServices = (c, Inr hasNewServices)"
| "reduce_services (fetchedService # rest) c hasNewServices =
     (case reduce_step c hasNewServices fetchedService of
        (c', Inl e) \<Rightarrow> (c', Inl e)
      | (c', Inr hasNewServices') \<Rightarrow> reduce_services rest c' hasNewServices')"

text \<open>
  The \<^verbatim>\<open>then\<close> callback of \<^verbatim>\<open>refreshServicesByPolling\<close>: the reduction, the
  \<^verbatim>\<open>service-change\<close> test, and the value the promise resolves with (or the error
  it rejects with).
\<close>

definition reconcile :: "jsobj list \<Rightarrow> cycle \<Rightarrow> cycle \<times> (error + jsobj list)" where
  "reconcile fetchedServices c =
     (case reduce_services fetchedServices c False of
        (c', Inl e) \<Rightarrow> (c', Inl e)
      | (c', Inr hasNewServices) \<Rightarrow>
          (if hasNewServices \<or> length fetchedServices \<noteq> length (storedServices c')
           then (c'\<lparr>events := events c' @ [ServiceChange fetchedServices]\<rparr>,
                 Inr fetchedServices)
           else (c', Inr fetchedServices)))"

text \<open>
  \<^verbatim>\<open>refreshServicesByPolling\<close> itself: nothing happens and the promise resolves
  with \<^verbatim>\<open>undefined\<close> (\<open>None\<close>) unless a session is held; otherwise the cached
  services and the projected hub response are reconciled. The session is the value
  of \<^verbatim>\<open>this[p.settings].session\<close>, the response the parsed body of the hub's answer.
\<close>

definition isLoggedIn :: "string option \<Rightarrow> bool" where
  "isLoggedIn session = (case session of None \<Rightarrow> False | Some s \<Rightarrow> s \<noteq> [])"

definition refreshServicesByPolling ::
  "string option \<Rightarrow> jsobj list \<Rightarrow> cycle \<Rightarrow> cycle \<times> (error + jsobj list option)" where
  "refreshServicesByPolling session response c =
     (if \<not> isLoggedIn session then (c, Inr None)
      else (case reconcile (fetchServices response) c of
              (c', Inl e) \<Rightarrow> (c', Inl e)
            | (c', Inr fetched) \<Rightarrow> (c', Inr (Some fetched))))"

section \<open>Polling scheduler\<close>

text \<open>
  The two fields of the instance that drive polling, and the part of the host they
  act on: the timeouts that are armed (set, neither fired nor cleared), the handle
  the next \<^verbatim>\<open>setTimeout\<close> returns, the polling cycles that have started and not yet
  settled, and the lines written with \<^verbatim>\<open>console.error\<close>.
\<close>

record scheduler =
  isPollingEnabled :: bool
  nextPollTimeout :: "nat option"
  armed :: "nat list"
  last_handle :: nat
  outstanding :: nat
  console_error :: "string list"

text \<open>The constructor: \<^verbatim>\<open>isPollingEnabled = false\<close>, \<^verbatim>\<open>nextPollTimeout = null\<close>.\<close>

definition new_scheduler :: scheduler where
  "new_scheduler =
     \<lparr>isPollingEnabled = False, nextPollTimeout = None, armed = [],
      last_handle = 0, outstanding = 0, console_error = []\<rparr>"

text \<open>
  The host's timers. \<^verbatim>\<open>setTimeout\<close> returns a fresh handle, an integer greater than
  zero; \<^verbatim>\<open>clearTimeout\<close> disarms the timeout of that handle and ignores \<^verbatim>\<open>null\<close>
  and handles that are not armed.
\<close>

definition setTimeout :: "scheduler \<Rightarrow> nat \<times> scheduler" where
  "setTimeout s =
     (Suc (last_handle s),
      s\<lparr>armed := armed s @ [Suc (last_handle s)], last_handle := Suc (last_handle s)\<rparr>)"

definition clearTimeout :: "nat option \<Rightarrow> scheduler \<Rightarrow> scheduler" where
  "clearTimeout handle s =
     (case handle of None \<Rightarrow> s | Some h \<Rightarrow> s\<lparr>armed := removeAll h (armed s)\<rparr>)"

text \<open>The truth value of \<^verbatim>\<open>this[p.nextPollTimeout]\<close>: \<^verbatim>\<open>null\<close> and \<^verbatim>\<open>0\<close> are false.\<close>

definition handle_truthy :: "nat option \<Rightarrow> bool" where
  "handle_truthy handle = (case handle of None \<Rightarrow> False | Some h \<Rightarrow> h \<noteq> 0)"

text \<open>
  \<^verbatim>\<open>
  schedulePoll() {
    if (!this[p.isPollingEnabled] || this[p.nextPollTimeout]) { return; }
    this[p.nextPollTimeout] = setTimeout(() => {
      this.refreshServicesByPolling()
        .catch((e) => { console.error('Polling has failed, ...', e); })
        .then(() => { this[p.nextPollTimeout] = null; this.schedulePoll(); });
    }, this[p.settings].pollingInterval);
  }
  \<close>
\<close>

definition schedulePoll :: "scheduler \<Rightarrow> scheduler" where
  "schedulePoll s =
     (if \<not> isPollingEnabled s \<or> handle_truthy (nextPollTimeout s) then s
      else (case setTimeout s of (h, s') \<Rightarrow> s'\<lparr>nextPollTimeout := Some h\<rparr>))"

text \<open>
  \<^verbatim>\<open>
  togglePolling(pollingEnabled) {
    this[p.isPollingEnabled] = pollingEnabled;
    if (pollingEnabled) { this.schedulePoll(); }
    else { clearTimeout(this[p.nextPollTimeout]); this[p.nextPollTimeout] = null; }
  }
  \<close>
\<close>

definition togglePolling :: "bool \<Rightarrow> scheduler \<Rightarrow> scheduler" where
  "togglePolling pollingEnabled s =
     (let s1 = s\<lparr>isPollingEnabled := pollingEnabled\<rparr>
      in if pollingEnabled then schedulePoll s1
         else (clearTimeout (nextPollTimeout s1) s1)\<lparr>nextPollTimeout := None\<rparr>)"

text \<open>
  The timeout's callback, first half: the host fires an armed timeout, which starts
  one cycle (\<^verbatim>\<open>refreshServicesByPolling()\<close> is called and its promise is pending).
  A handle that is not armed does not fire.
\<close>

definition timer_fires :: "nat \<Rightarrow> scheduler \<Rightarrow> scheduler" where
  "timer_fires h s =
     (if h \<in> set (armed s)
      then s\<lparr>armed := removeAll h (armed s), outstanding := Suc (outstanding s)\<rparr>
      else s)"

text \<open>
  The timeout's callback, second half: the promise of a cycle settles. A rejection
  runs the \<^verbatim>\<open>catch\<close> handler, which logs; either way the \<^verbatim>\<open>then\<close> handler
  clears the handle and calls \<^verbatim>\<open>schedulePoll\<close>. Nothing settles when no cycle is
  outstanding.
\<close>

datatype outcome = Fulfilled | Rejected string

definition cycle_settles :: "outcome \<Rightarrow> scheduler \<Rightarrow> scheduler" where
  "cycle_settles result s =
     (if outstanding s = 0 then s
      else
        (let s1 = s\<lparr>outstanding := outstanding s - 1\<rparr>;
             s2 = (case result of
                     Fulfilled \<Rightarrow> s1
                   | Rejected e \<Rightarrow>
                       s1\<lparr>console_error := console_error s1 @
                            [''Polling has failed, scheduling one more attempt: '' @ e]\<rparr>)
         in schedulePoll (s2\<lparr>nextPollTimeout := None\<rparr>)))"

text \<open>Everything that can happen to the scheduler, and a run of such happenings.\<close>

datatype sched_event =
    TogglePolling bool
  | SchedulePoll
  | TimerFires nat
  | CycleSettles outcome

fun sched_step :: "scheduler \<Rightarrow> sched_event \<Rightarrow> scheduler" where
  "sched_step s (TogglePolling b) = togglePolling b s"
| "sched_step s SchedulePoll = schedulePoll s"
| "sched_step s (TimerFires h) = timer_fires h s"
| "sched_step s (CycleSettles r) = cycle_settles r s"

definition sched_run :: "sched_event list \<Rightarrow> scheduler \<Rightarrow> scheduler" where
  "sched_run evs s = foldl sched_step s evs"

section \<open>Box registry\<close>

text \<open>
  A box as the discovery plugin reports it; \<open>txtRecord_name\<close> is
  \<^verbatim>\<open>box.txtRecord.name\<close>.
\<close>

record box =
  addresses :: "string list"
  port :: nat
  txtRecord_name :: string

text \<open>The calls made to \<^verbatim>\<open>window.cordovaHTTP\<close>; \<open>None\<close> is \<^verbatim>\<open>undefined\<close>.\<close>

datatype plugin_call = SetProxyHost "string option" | SetProxyPort nat

text \<open>
  The registry's part of the instance and of what it writes: the array
  \<^verbatim>\<open>this[p.boxes]\<close> and whether it is frozen, the settings
  \<^verbatim>\<open>configured\<close>, \<^verbatim>\<open>url\<close> and \<^verbatim>\<open>ipaddrs\<close>, the lines written with
  \<^verbatim>\<open>console.error\<close>, and the calls made to the plugin, oldest first.
\<close>

record registry =
  boxes :: "box list"
  boxes_frozen :: bool
  settings_configured :: bool
  settings_url :: string
  settings_ipaddrs :: "string list"
  registry_errors :: "string list"
  plugin_calls :: "plugin_call list"

text \<open>
  The constructor: \<^verbatim>\<open>this[p.boxes] = Object.freeze([])\<close>. The settings are those
  of the settings store, which the constructor does not touch.
\<close>

definition new_registry :: "bool \<Rightarrow> string \<Rightarrow> string list \<Rightarrow> registry" where
  "new_registry configured url ipaddrs =
     \<lparr>boxes = [], boxes_frozen = True, settings_configured = configured,
      settings_url = url, settings_ipaddrs = ipaddrs, registry_errors = [],
      plugin_calls = []\<rparr>"

text \<open>
  \<^verbatim>\<open>
  selectBox(index = 0) {
    if (index >= this[p.boxes].length) {
      this[p.settings].configured = false;
      console.error('Index out of range.');
      return;
    }
    const box = this[p.boxes][index];
    this[p.settings].url = `https://${box.txtRecord.name}:${box.port}`;
    this[p.settings].ipaddrs = box.addresses;
    window.cordovaHTTP.setProxyHost(box.addresses[0], function() {
      window.cordovaHTTP.setProxyPort(box.port, function() {
        this[p.settings].configured = true;
      });
    });
  }
  \<close>
  A negative index passes the test and reads \<^verbatim>\<open>undefined\<close> from the array, so
  \<^verbatim>\<open>box.txtRecord\<close> raises.
\<close>

definition first_address :: "box \<Rightarrow> string option" where
  "first_address b = (case addresses b of [] \<Rightarrow> None | a # _ \<Rightarrow> Some a)"

definition selectBox :: "int \<Rightarrow> registry \<Rightarrow> error + registry" where
  "selectBox index r =
     (if index \<ge> int (length (boxes r))
      then Inr (r\<lparr>settings_configured := False,
                 registry_errors := registry_errors r @ [''Index out of range.'']\<rparr>)
      else if index < 0 then Inl TypeError
      else
        (let b = boxes r ! nat index
         in Inr (r\<lparr>settings_url := ''https://'' @ txtRecord_name b @ '':'' @ dec (port b),
                    settings_ipaddrs := addresses b,
                    plugin_calls := plugin_calls r @ [SetProxyHost (first_address b)]\<rparr>)))"




text \<open>
  The callback given to \<^verbatim>\<open>zeroconf.watch\<close> by \<^verbatim>\<open>_initDiscovery\<close>:
  \<^verbatim>\<open>
  result => {
    const action = result.action;
    const service = result.service;
    if (action == 'added') {
      this[p.boxes].push(service);
      this.selectBox();
    }
  }
  \<close>
  \<^verbatim>\<open>push\<close> on a frozen array raises a TypeError and adds nothing.
\<close>

definition service_found :: "string \<Rightarrow> box \<Rightarrow> registry \<Rightarrow> error + registry" where
  "service_found action service r =
     (if action = ''added''
      then (if boxes_frozen r then Inl TypeError
            else selectBox 0 (r\<lparr>boxes := boxes r @ [service]\<rparr>))
      else Inr r)"

text \<open>
  \<^verbatim>\<open>_initDiscovery\<close> with the advertisements the plugin goes on to report: none are
  listened to when \<^verbatim>\<open>skipDiscovery\<close> is set; otherwise the callback runs once for each,
  and one that raises leaves the registry as it was.
\<close>

fun watch :: "(string \<times> box) list \<Rightarrow> registry \<Rightarrow> registry" where
  "watch [] r = r"
| "watch ((action, service) # rest) r =
     (case service_found action service r of
        Inl e \<Rightarrow> watch rest r
      | Inr r' \<Rightarrow> watch rest r')"

definition initDiscovery :: "bool \<Rightarrow> (string \<times> box) list \<Rightarrow> registry \<Rightarrow> registry" where
  "initDiscovery skipDiscovery found r = (if skipDiscovery then r else watch found r)"




section \<open>User session\<close>

text \<open>
  \<^verbatim>\<open>this[p.settings].session\<close>, \<^verbatim>\<open>location.search\<close> as read, and the value
  assigned to \<^verbatim>\<open>location.search\<close>, if any (the assignment navigates).
\<close>

record session_state =
  settings_session :: "string option"
  location_search :: string
  location_search_assigned :: "string option"

text \<open>\<^verbatim>\<open>str.split('&')\<close> and \<^verbatim>\<open>parts.join('&')\<close>\<close>

fun split_on :: "char \<Rightarrow> string \<Rightarrow> string list" where
  "split_on c [] = [[]]"
| "split_on c (x # xs) =
     (if x = c then [] # split_on c xs
      else (case split_on c xs of
              [] \<Rightarrow> [[x]]
            | part # parts \<Rightarrow> (x # part) # parts))"

fun join_with :: "char \<Rightarrow> string list \<Rightarrow> string" where
  "join_with c [] = []"
| "join_with c [part] = part"
| "join_with c (part # parts) = part @ c # join_with c parts"

text \<open>\<^verbatim>\<open>str.replace(/ /g, '+')\<close>\<close>

definition spaces_to_plus :: "string \<Rightarrow> string" where
  "spaces_to_plus str = map (\<lambda>ch. if ch = CHR '' '' then CHR ''+'' else ch) str"

text \<open>
  \<^verbatim>\<open>
  _initUserSession() {
    if (this.isLoggedIn) { return Promise.resolve(); }
    const queryStringParts = location.search.substring(1).split('&');
    for (let i = 0; i < queryStringParts.length; i++) {
      if (queryStringParts[i].substring(0, 'session_token='.length) === 'session_token') {
        this[p.settings].session =
          queryStringParts[i].substring(0, 'session_token='.length).replace(/ /g, '+');
        queryStringParts.splice(i, 1);
        location.search = queryStringParts.join('&');
        throw(new Error('Redirecting to a URL without session'));
      }
    }
    return Promise.resolve();
  }
  \<close>
  The loop, with the parts already passed and the parts still to visit.
\<close>

fun session_scan ::
  "string list \<Rightarrow> string list \<Rightarrow> session_state \<Rightarrow> session_state \<times> (error + unit)" where
  "session_scan passed [] s = (s, Inr ())"
| "session_scan passed (part # rest) s =
     (if take (length ''session_token='') part = ''session_token''
      then (s\<lparr>settings_session :=
                 Some (spaces_to_plus (take (length ''session_token='') part)),
               location_search_assigned := Some (join_with CHR ''&'' (passed @ rest))\<rparr>,
            Inl (Error ''Redirecting to a URL without session''))
      else session_scan (passed @ [part]) rest s)"

definition initUserSession :: "session_state \<Rightarrow> session_state \<times> (error + unit)" where
  "initUserSession s =
     (if isLoggedIn (settings_session s) then (s, Inr ())
      else session_scan [] (split_on CHR ''&'' (drop 1 (location_search s))) s)"

section \<open>Observations on values and event logs\<close>

text \<open>Whether a value is an object (\<^verbatim>\<open>null\<close> is not).\<close>

fun is_object :: "jsval \<Rightarrow> bool" where
  "is_object (JObj _ _) = True"
| "is_object _ = False"


text \<open>The payloads of the \<^verbatim>\<open>service-state-change\<close> events of a log, oldest first.\<close>

fun service_state_changes :: "event list \<Rightarrow> jsobj list" where
  "service_state_changes [] = []"
| "service_state_changes (ServiceStateChange service # evs) =
     service # service_state_changes evs"
| "service_state_changes (ServiceChange _ # evs) = service_state_changes evs"

text \<open>
  What the reconciliation of one fetched service against a cached list is to dispatch
  and to persist: the service itself when no cached service has its id, nothing when
  the comparison with the cached service answers true, the merged record otherwise.
\<close>

definition state_change_for :: "jsobj list \<Rightarrow> jsobj \<Rightarrow> jsobj list" where
  "state_change_for cached fetchedService =
     (case find_service cached (get fetchedService ''id'') of
        None \<Rightarrow> [fetchedService]
      | Some i \<Rightarrow>
          if isSimilar (get fetchedService ''state'') (get (cached ! i) ''state'') = Inr True
          then []
          else [object_assign (cached ! i) fetchedService])"

text \<open>No two services of a list have strictly equal ids.\<close>

fun distinct_ids :: "jsobj list \<Rightarrow> bool" where
  "distinct_ids [] = True"
| "distinct_ids (f # fs) =
     (list_all (\<lambda>g. \<not> strict_eq (get g ''id'') (get f ''id'')) fs \<and> distinct_ids fs)"

text \<open>
  Single flight, as a property of a scheduler state: at most one thing is pending,
  an armed timeout or an outstanding cycle; an armed timeout is the one the instance
  holds the handle of; and the handle is still held while a cycle is outstanding.
\<close>

definition single_flight :: "scheduler \<Rightarrow> bool" where
  "single_flight s =
     (outstanding s + length (armed s) \<le> 1
      \<and> (0 < outstanding s \<longrightarrow> handle_truthy (nextPollTimeout s))
      \<and> list_all (\<lambda>h. nextPollTimeout s = Some h \<and> h \<noteq> 0) (armed s))"

text \<open>
  A run in which polling is never switched off while a cycle is outstanding.
\<close>

fun never_disabled_in_flight :: "scheduler \<Rightarrow> sched_event list \<Rightarrow> bool" where
  "never_disabled_in_flight s [] = True"
| "never_disabled_in_flight s (ev # evs) =
     ((ev = TogglePolling False \<longrightarrow> outstanding s = 0)
      \<and> never_disabled_in_flight (sched_step s ev) evs)"

section \<open>Facts about values, objects and the comparison\<close>

lemma strict_eq_sym: "strict_eq a b = strict_eq b a"
  by (cases a; cases b; auto)

lemma strict_eq_trans: "strict_eq a b \<Longrightarrow> strict_eq b c \<Longrightarrow> strict_eq a c"
  by (cases a; cases b; cases c; simp)

lemma map_of_fold_update:
  "map_of (fold (\<lambda>k t. AList.update k (g k) t) ks t) k =
     (if k \<in> set ks then Some (g k) else map_of t k)"
  by (induction ks arbitrary: t) (auto simp: update_conv')

lemma get_object_assign:
  "get (object_assign target source) k =
     (if k \<in> set (keys source) then get source k else get target k)"
  by (simp add: object_assign_def get_def map_of_fold_update)

lemma keys_fold_update:
  "set (keys (fold (\<lambda>k t. AList.update k (g k) t) ks t)) = set (keys t) \<union> set ks"
  by (induction ks arbitrary: t) (auto simp: keys_def AList.dom_update)

lemma keys_object_assign:
  "set (keys (object_assign target source)) = set (keys target) \<union> set (keys source)"
  by (simp add: object_assign_def keys_fold_update)

lemma find_service_None:
  "(find_service ss x = None) = (\<forall>s\<in>set ss. \<not> strict_eq (get s ''id'') x)"
  by (induction ss) auto

lemma find_service_Some:
  "find_service ss x = Some i \<Longrightarrow>
     i < length ss \<and> strict_eq (get (ss ! i) ''id'') x
     \<and> (\<forall>j<i. \<not> strict_eq (get (ss ! j) ''id'') x)"
proof (induction ss arbitrary: i)
  case Nil
  then show ?case by simp
next
  case (Cons s ss)
  show ?case
  proof (cases "strict_eq (get s ''id'') x")
    case True
    with Cons.prems show ?thesis by simp
  next
    case False
    with Cons.prems obtain i' where i': "find_service ss x = Some i'" "i = Suc i'"
      by auto
    from Cons.IH [OF i'(1)] False i'(2) show ?thesis
      by (auto simp: less_Suc_eq_0_disj)
  qed
qed

lemma isSimilar_loop_objects:
  "isSimilar_loop ks (JObj a A) (JObj b B) =
     Inr (\<forall>k\<in>set ks. k \<in> set (keys B) \<and> strict_eq (get A k) (get B k))"
  by (induction ks) auto

lemma isSimilar_objects:
  "isSimilar (JObj a A) (JObj b B) =
     Inr (\<forall>k\<in>set (keys A). k \<in> set (keys B) \<and> strict_eq (get A k) (get B k))"
  by (simp add: isSimilar_def isSimilar_loop_objects)

lemma find_service_exists:
  "\<exists>s\<in>set ss. strict_eq (get s ''id'') x \<Longrightarrow> \<exists>i. find_service ss x = Some i"
  using find_service_None [of ss x] by (cases "find_service ss x") auto

lemma isSimilar_loop_object_decided:
  "\<exists>v. isSimilar_loop ks A (JObj b B) = Inr v"
  by (induction ks) auto

lemma isSimilar_object_decided:
  "is_object B \<Longrightarrow> isSimilar A B = Inr True \<or> isSimilar A B = Inr False"
proof -
  assume "is_object B"
  then obtain b ps where "B = JObj b ps" by (cases B) auto
  with isSimilar_loop_object_decided [of "for_in_keys A" A b ps]
  show ?thesis by (auto simp: isSimilar_def)
qed

lemma isSimilar_no_keys: "for_in_keys A = [] \<Longrightarrow> isSimilar A B = Inr True"
  by (simp add: isSimilar_def)

section \<open>Facts about the reduction\<close>






lemma strict_eq_same_class:
  "strict_eq a b \<Longrightarrow> strict_eq a x = strict_eq b x"
  using strict_eq_trans strict_eq_sym by blast






lemma reduce_step_no_keys:
  "for_in_keys (get f ''state'') = [] \<Longrightarrow> \<exists>c' h'. reduce_step c h f = (c', Inr h')"
  by (auto simp: reduce_step_def isSimilar_no_keys split: option.splits)

lemma reduce_services_no_keys:
  "\<forall>f\<in>set fs. for_in_keys (get f ''state'') = [] \<Longrightarrow>
   \<exists>c' h'. reduce_services fs c h = (c', Inr h')"
proof (induction fs arbitrary: c h)
  case Nil
  then show ?case by simp
next
  case (Cons f fs)
  then obtain c1 h1 where "reduce_step c h f = (c1, Inr h1)"
    using reduce_step_no_keys [of f c h] by auto
  with Cons show ?case by simp
qed



lemma reconcile_resolves:
  assumes "reduce_services fetched c False = (c1, Inr h)"
  shows "\<exists>c'. reconcile fetched c = (c', Inr fetched)"
  using assms by (simp add: reconcile_def)

lemma find_service_update:
  "i < length xs \<Longrightarrow> strict_eq (get m ''id'') (get (xs ! i) ''id'') \<Longrightarrow>
   find_service (xs[i := m]) x = find_service xs x"
proof (induction xs arbitrary: i)
  case Nil
  then show ?case by simp
next
  case (Cons s ss)
  show ?case
  proof (cases i)
    case 0
    with Cons.prems have "strict_eq (get m ''id'') x = strict_eq (get s ''id'') x"
      by (simp add: strict_eq_same_class)
    with 0 show ?thesis by simp
  next
    case (Suc j)
    with Cons show ?thesis by simp
  qed
qed

lemma service_state_changes_append:
  "service_state_changes (xs @ ys) = service_state_changes xs @ service_state_changes ys"
  by (induction xs rule: service_state_changes.induct) auto

lemma reduce_step_state_change:
  "reduce_step c h f = (c1, Inr h1) \<Longrightarrow>
   service_state_changes (events c1) =
     service_state_changes (events c) @ state_change_for (storedServices c) f
   \<and> db_setService c1 = db_setService c @ state_change_for (storedServices c) f"
  by (auto simp: reduce_step_def state_change_for_def Let_def service_state_changes_append
           split: option.splits sum.splits bool.splits if_splits)

lemma object_assign_id:
  "strict_eq (get s ''id'') (get f ''id'') \<Longrightarrow>
   strict_eq (get (object_assign s f) ''id'') (get s ''id'')"
  by (cases "get s ''id''"; cases "get f ''id''") (auto simp: get_object_assign)

lemma reduce_step_other_service:
  assumes step: "reduce_step c h f = (c1, r)"
    and other: "\<not> strict_eq (get g ''id'') (get f ''id'')"
  shows "state_change_for (storedServices c1) g = state_change_for (storedServices c) g"
proof (cases "find_service (storedServices c) (get f ''id'')")
  case None
  with step show ?thesis by (auto simp: reduce_step_def)
next
  case (Some i)
  from find_service_Some [OF Some]
  have bound: "i < length (storedServices c)"
    and same: "strict_eq (get (storedServices c ! i) ''id'') (get f ''id'')"
    by simp_all
  let ?m = "object_assign (storedServices c ! i) f"
  let ?xs = "(storedServices c)[i := ?m]"
  have found: "find_service ?xs (get g ''id'') = find_service (storedServices c) (get g ''id'')"
    using bound same by (simp add: find_service_update object_assign_id)
  have "state_change_for ?xs g = state_change_for (storedServices c) g"
  proof (cases "find_service (storedServices c) (get g ''id'')")
    case None
    with found show ?thesis by (simp add: state_change_for_def)
  next
    case (Some j)
    from find_service_Some [OF Some]
    have "strict_eq (get (storedServices c ! j) ''id'') (get g ''id'')" by simp
    with same other have "j \<noteq> i"
      using strict_eq_same_class strict_eq_sym by blast
    then have "?xs ! j = storedServices c ! j" by simp
    with found Some show ?thesis by (simp add: state_change_for_def)
  qed
  with step Some show ?thesis
    by (auto simp: reduce_step_def Let_def split: sum.splits bool.splits if_splits)
qed

lemma reduce_services_state_changes:
  "reduce_services fs c h = (c', Inr h') \<Longrightarrow> distinct_ids fs \<Longrightarrow>
   service_state_changes (events c') =
     service_state_changes (events c) @ concat (map (state_change_for (storedServices c)) fs)
   \<and> db_setService c' =
     db_setService c @ concat (map (state_change_for (storedServices c)) fs)"
proof (induction fs arbitrary: c h)
  case Nil
  then show ?case by simp
next
  case (Cons f fs)
  obtain c1 r1 where step: "reduce_step c h f = (c1, r1)" by (cases "reduce_step c h f")
  with Cons.prems(1) obtain h1 where r1: "r1 = Inr h1"
    by (cases r1) auto
  with Cons.prems(1) step have rest: "reduce_services fs c1 h1 = (c', Inr h')" by simp
  from Cons.prems(2) have distinct: "distinct_ids fs"
    and others: "\<forall>g\<in>set fs. \<not> strict_eq (get g ''id'') (get f ''id'')"
    by (simp_all add: list_all_iff)
  have same: "map (state_change_for (storedServices c1)) fs
      = map (state_change_for (storedServices c)) fs"
    using others reduce_step_other_service [OF step] by simp
  from Cons.IH [OF rest distinct] same reduce_step_state_change [of c h f c1 h1] step r1
  show ?case by simp
qed

lemma reconcile_state_changes:
  assumes "reconcile fetched c = (c', Inr resolved)" and "distinct_ids fetched"
  shows "service_state_changes (events c') =
     service_state_changes (events c) @ concat (map (state_change_for (storedServices c)) fetched)
   \<and> db_setService c' =
     db_setService c @ concat (map (state_change_for (storedServices c)) fetched)"
proof -
  obtain c1 r1 where red: "reduce_services fetched c False = (c1, r1)"
    by (cases "reduce_services fetched c False")
  with assms(1) obtain h where r1: "r1 = Inr h"
    by (cases r1) (auto simp: reconcile_def)
  from assms(1) red r1
  have "service_state_changes (events c') = service_state_changes (events c1)"
    and "db_setService c' = db_setService c1"
    by (auto simp: reconcile_def service_state_changes_append split: if_splits)
  with reduce_services_state_changes [of fetched c False c1 h] red r1 assms(2)
  show ?thesis by simp
qed

section \<open>The comparison of states\<close>

text \<open>
  Claim C3. For state objects \<open>A\<close> and \<open>B\<close>: if every key of \<open>A\<close> is a key of
  \<open>B\<close> with a strictly equal value, \<^verbatim>\<open>isSimilar(A, B)\<close> is true, whatever other
  keys \<open>B\<close> has; the answer is the same for any other ordering of the same
  properties; and the comparison is not symmetric: there are \<open>A\<close> and \<open>B\<close>, the keys
  of \<open>A\<close> a strict subset of those of \<open>B\<close>, with \<^verbatim>\<open>isSimilar(A, B)\<close> true and
  \<^verbatim>\<open>isSimilar(B, A)\<close> false.
\<close>

theorem isSimilar_subset_not_symmetric:
  "((\<forall>k\<in>set (keys A). k \<in> set (keys B) \<and> strict_eq (get A k) (get B k))
      \<longrightarrow> isSimilar (JObj a A) (JObj b B) = Inr True)
   \<and> (set (keys A') = set (keys A) \<and> set (keys B') = set (keys B)
        \<and> (\<forall>k. get A' k = get A k) \<and> (\<forall>k. get B' k = get B k)
      \<longrightarrow> isSimilar (JObj a A') (JObj b B') = isSimilar (JObj a A) (JObj b B))
   \<and> (\<exists>A0 B0. set (keys A0) \<subset> set (keys B0)
        \<and> isSimilar (JObj a A0) (JObj b B0) = Inr True
        \<and> isSimilar (JObj b B0) (JObj a A0) = Inr False)"
proof (intro conjI impI)
  assume "\<forall>k\<in>set (keys A). k \<in> set (keys B) \<and> strict_eq (get A k) (get B k)"
  then show "isSimilar (JObj a A) (JObj b B) = Inr True"
    by (simp add: isSimilar_objects)
next
  assume "set (keys A') = set (keys A) \<and> set (keys B') = set (keys B)
        \<and> (\<forall>k. get A' k = get A k) \<and> (\<forall>k. get B' k = get B k)"
  then show "isSimilar (JObj a A') (JObj b B') = isSimilar (JObj a A) (JObj b B)"
    by (simp add: isSimilar_objects)
next
  let ?A0 = "[(''a'', JNum 1)]"
  let ?B0 = "[(''a'', JNum 1), (''b'', JNum 2)]"
  have "set (keys ?A0) \<subset> set (keys ?B0)"
    by (auto simp: keys_def)
  moreover have "isSimilar (JObj a ?A0) (JObj b ?B0) = Inr True"
    by (simp add: isSimilar_objects keys_def get_def)
  moreover have "isSimilar (JObj b ?B0) (JObj a ?A0) = Inr False"
    by (simp add: isSimilar_objects keys_def get_def)
  ultimately show "\<exists>A0 B0. set (keys A0) \<subset> set (keys B0)
        \<and> isSimilar (JObj a A0) (JObj b B0) = Inr True
        \<and> isSimilar (JObj b B0) (JObj a A0) = Inr False"
    by blast
qed

theorem isSimilar_subset_not_symmetric_witness:
  "isSimilar (JObj 1 [(''a'', JNum 1), (''b'', JStr ''on'')])
               (JObj 2 [(''c'', JNull), (''b'', JStr ''on''), (''a'', JNum 1)]) = Inr True
   \<and> isSimilar (JObj 1 [(''b'', JStr ''on''), (''a'', JNum 1)])
               (JObj 2 [(''a'', JNum 1), (''b'', JStr ''on''), (''c'', JNull)])
       = isSimilar (JObj 1 [(''a'', JNum 1), (''b'', JStr ''on'')])
                   (JObj 2 [(''c'', JNull), (''b'', JStr ''on''), (''a'', JNum 1)])"
proof -
  let ?A = "[(''a'', JNum 1), (''b'', JStr ''on'')]"
  let ?B = "[(''c'', JNull), (''b'', JStr ''on''), (''a'', JNum 1)]"
  let ?A' = "[(''b'', JStr ''on''), (''a'', JNum 1)]"
  let ?B' = "[(''a'', JNum 1), (''b'', JStr ''on''), (''c'', JNull)]"
  have h1: "\<forall>k\<in>set (keys ?A). k \<in> set (keys ?B) \<and> strict_eq (get ?A k) (get ?B k)"
    by (simp add: keys_def get_def)
  have h2: "set (keys ?A') = set (keys ?A) \<and> set (keys ?B') = set (keys ?B)
        \<and> (\<forall>k. get ?A' k = get ?A k) \<and> (\<forall>k. get ?B' k = get ?B k)"
    by (auto simp: keys_def get_def)
  from isSimilar_subset_not_symmetric [of ?A ?B 1 2 ?A' ?B'] h1 h2
  show ?thesis by blast
qed

section \<open>The value type of an operation\<close>

text \<open>
  Claim C8. A kind that is absent or empty (any falsy value) makes
  \<^verbatim>\<open>getOperationValueType\<close> raise; an extension kind, an object, yields its
  \<^verbatim>\<open>typ\<close> property as it is; a non-empty string yields \<^verbatim>\<open>Unit\<close> when it is
  \<^verbatim>\<open>TakeSnapshot\<close> and itself otherwise. The four cases named by the
  specification are included.
\<close>

theorem getOperationValueType_table:
  "(\<not> truthy kind \<longrightarrow>
      getOperationValueType kind = Inl (Error ''Operation kind is not defined!''))
   \<and> getOperationValueType (JObj a props) = Inr (get props ''typ'')
   \<and> (name \<noteq> [] \<longrightarrow>
        getOperationValueType (JStr name) =
          Inr (JStr (if name = ''TakeSnapshot'' then ''Unit'' else name)))
   \<and> getOperationValueType (JStr ''TakeSnapshot'') = Inr (JStr ''Unit'')
   \<and> getOperationValueType (JObj a [(''typ'', JStr ''Binary'')]) = Inr (JStr ''Binary'')
   \<and> getOperationValueType (JStr ''OnOff'') = Inr (JStr ''OnOff'')
   \<and> getOperationValueType JUndefined = Inl (Error ''Operation kind is not defined!'')"
  by (simp add: getOperationValueType_def get_def)

theorem getOperationValueType_table_witness:
  "\<not> truthy (JStr []) \<and> ''DoorLocked'' \<noteq> []
   \<and> getOperationValueType (JStr []) = Inl (Error ''Operation kind is not defined!'')
   \<and> getOperationValueType (JStr ''DoorLocked'') = Inr (JStr ''DoorLocked'')"
  using getOperationValueType_table [where kind = "JStr []" and name = "''DoorLocked''"]
  by simp

section \<open>Reconciliation of a service that is already cached\<close>

text \<open>
  The reducer alone, on a fetched record that may carry a state, and a cached service
  with the same id: when the comparison of the two states answers true the cycle is
  left as it was; when it answers false the fetched record is merged onto the cached
  one, one \<^verbatim>\<open>service-state-change\<close> event carries the merged record and the
  merged record is handed to the database; the comparison does answer when the cached
  state is an object.
\<close>

lemma reduce_step_matched:
  assumes "\<exists>s\<in>set (storedServices c). strict_eq (get s ''id'') (get fetchedService ''id'')"
  shows "\<exists>i<length (storedServices c).
      strict_eq (get (storedServices c ! i) ''id'') (get fetchedService ''id'')
    \<and> (isSimilar (get fetchedService ''state'') (get (storedServices c ! i) ''state'')
          = Inr True
        \<longrightarrow> reduce_step c hasNew fetchedService = (c, Inr hasNew))
    \<and> (isSimilar (get fetchedService ''state'') (get (storedServices c ! i) ''state'')
          = Inr False
        \<longrightarrow> reduce_step c hasNew fetchedService =
              (c\<lparr>storedServices :=
                    (storedServices c)
                      [i := object_assign (storedServices c ! i) fetchedService],
                 events := events c @
                    [ServiceStateChange
                       (object_assign (storedServices c ! i) fetchedService)],
                 db_setService := db_setService c @
                    [object_assign (storedServices c ! i) fetchedService]\<rparr>,
               Inr hasNew)
          \<and> (\<forall>k. get (object_assign (storedServices c ! i) fetchedService) k =
                 (if k \<in> set (keys fetchedService) then get fetchedService k
                  else get (storedServices c ! i) k)))
    \<and> (is_object (get (storedServices c ! i) ''state'')
        \<longrightarrow> isSimilar (get fetchedService ''state'')
                      (get (storedServices c ! i) ''state'') = Inr True
          \<or> isSimilar (get fetchedService ''state'')
                      (get (storedServices c ! i) ''state'') = Inr False)"
proof -
  from find_service_exists [OF assms] obtain i
    where i: "find_service (storedServices c) (get fetchedService ''id'') = Some i"
    by blast
  from find_service_Some [OF i]
  have bound: "i < length (storedServices c)"
    and same: "strict_eq (get (storedServices c ! i) ''id'') (get fetchedService ''id'')"
    by simp_all
  have similar: "isSimilar (get fetchedService ''state'')
        (get (storedServices c ! i) ''state'') = Inr True
      \<Longrightarrow> reduce_step c hasNew fetchedService = (c, Inr hasNew)"
    by (simp add: reduce_step_def i)
  have changed: "isSimilar (get fetchedService ''state'')
        (get (storedServices c ! i) ''state'') = Inr False
      \<Longrightarrow> reduce_step c hasNew fetchedService =
              (c\<lparr>storedServices :=
                    (storedServices c)
                      [i := object_assign (storedServices c ! i) fetchedService],
                 events := events c @
                    [ServiceStateChange
                       (object_assign (storedServices c ! i) fetchedService)],
                 db_setService := db_setService c @
                    [object_assign (storedServices c ! i) fetchedService]\<rparr>,
               Inr hasNew)"
    by (simp add: reduce_step_def i Let_def)
  from bound same similar changed show ?thesis
    by (intro exI [of _ i]) (simp add: get_object_assign isSimilar_object_decided)
qed

text \<open>
  The cycle as the instance runs it never gets that far. A service built from the
  hub's response has no state, so the reducer dispatches and persists the services
  that are new and nothing else, and the cached array is never written.
\<close>

lemma reduce_step_without_state:
  "for_in_keys (get f ''state'') = [] \<Longrightarrow>
   reduce_step c h f =
     (if list_all (\<lambda>s. \<not> strict_eq (get s ''id'') (get f ''id'')) (storedServices c)
      then (c\<lparr>events := events c @ [ServiceStateChange f],
              db_setService := db_setService c @ [f]\<rparr>, Inr True)
      else (c, Inr h))"
  using find_service_None [of "storedServices c" "get f ''id''"]
  by (cases "find_service (storedServices c) (get f ''id'')")
    (auto simp: reduce_step_def isSimilar_no_keys list_all_iff)

lemma reduce_services_without_state:
  "\<forall>f\<in>set fs. for_in_keys (get f ''state'') = [] \<Longrightarrow>
   reduce_services fs c h = (c', r) \<Longrightarrow>
   storedServices c' = storedServices c
   \<and> service_state_changes (events c') = service_state_changes (events c) @
       filter (\<lambda>f. list_all (\<lambda>s. \<not> strict_eq (get s ''id'') (get f ''id''))
                       (storedServices c)) fs
   \<and> db_setService c' = db_setService c @
       filter (\<lambda>f. list_all (\<lambda>s. \<not> strict_eq (get s ''id'') (get f ''id''))
                       (storedServices c)) fs"
proof (induction fs arbitrary: c h)
  case Nil
  then show ?case by simp
next
  case (Cons f fs)
  let ?new = "list_all (\<lambda>s. \<not> strict_eq (get s ''id'') (get f ''id'')) (storedServices c)"
  from Cons.prems(1) have nokeys: "for_in_keys (get f ''state'') = []"
    and rest: "\<forall>f\<in>set fs. for_in_keys (get f ''state'') = []"
    by simp_all
  show ?case
  proof (cases ?new)
    case True
    let ?c1 = "c\<lparr>events := events c @ [ServiceStateChange f],
              db_setService := db_setService c @ [f]\<rparr>"
    from True nokeys Cons.prems(2) have "reduce_services fs ?c1 True = (c', r)"
      by (simp add: reduce_step_without_state)
    from Cons.IH [OF rest this] True show ?thesis
      by (simp add: service_state_changes_append)
  next
    case False
    with nokeys Cons.prems(2) have "reduce_services fs c h = (c', r)"
      by (simp add: reduce_step_without_state)
    from Cons.IH [OF rest this] False show ?thesis by simp
  qed
qed

lemma refreshServicesByPolling_never_merges:
  assumes "refreshServicesByPolling session response c = (c', r)"
  shows "storedServices c' = storedServices c
   \<and> service_state_changes (events c') = service_state_changes (events c) @
       (if isLoggedIn session
        then filter (\<lambda>f. list_all (\<lambda>s. \<not> strict_eq (get s ''id'') (get f ''id''))
                             (storedServices c)) (fetchServices response)
        else [])
   \<and> db_setService c' = db_setService c @
       (if isLoggedIn session
        then filter (\<lambda>f. list_all (\<lambda>s. \<not> strict_eq (get s ''id'') (get f ''id''))
                             (storedServices c)) (fetchServices response)
        else [])"
proof (cases "isLoggedIn session")
  case False
  with assms show ?thesis by (simp add: refreshServicesByPolling_def)
next
  case True
  have nokeys: "\<forall>f\<in>set (fetchServices response). for_in_keys (get f ''state'') = []"
    by (auto simp: fetchServices_def get_def)
  obtain c1 r1 where red: "reduce_services (fetchServices response) c False = (c1, r1)"
    by (cases "reduce_services (fetchServices response) c False")
  from reduce_services_without_state [OF nokeys red]
  have c1: "storedServices c1 = storedServices c"
    "service_state_changes (events c1) = service_state_changes (events c) @
       filter (\<lambda>f. list_all (\<lambda>s. \<not> strict_eq (get s ''id'') (get f ''id''))
                       (storedServices c)) (fetchServices response)"
    "db_setService c1 = db_setService c @
       filter (\<lambda>f. list_all (\<lambda>s. \<not> strict_eq (get s ''id'') (get f ''id''))
                       (storedServices c)) (fetchServices response)"
    by simp_all
  from assms True red
  have "storedServices c' = storedServices c1
     \<and> service_state_changes (events c') = service_state_changes (events c1)
     \<and> db_setService c' = db_setService c1"
    by (cases r1)
      (auto simp: refreshServicesByPolling_def reconcile_def service_state_changes_append
            split: if_splits)
  with c1 True show ?thesis by simp
qed

text \<open>
  Claim C1. The instance holds a session, the cache holds
  \<^verbatim>\<open>{id: 1, state: {a: 1}}\<close> and the hub reports \<^verbatim>\<open>{id: 1, state: {a: 2}}\<close>.
  \<^verbatim>\<open>refreshServicesByPolling\<close> dispatches no event, hands nothing to the database
  and leaves the cached record as it was: the changed state is lost with the
  projection of the response. And the reducer given that fetched record as it is,
  against a cached record that has no state, raises a TypeError instead of merging.
\<close>

theorem refreshServicesByPolling_state_change_lost:
  "refreshServicesByPolling (Some ''token'')
     [[(''id'', JNum 1), (''state'', JObj 11 [(''a'', JNum 2)])]]
     \<lparr>storedServices = [[(''id'', JNum 1), (''state'', JObj 10 [(''a'', JNum 1)])]],
      events = [], db_setService = []\<rparr>
   = (\<lparr>storedServices = [[(''id'', JNum 1), (''state'', JObj 10 [(''a'', JNum 1)])]],
       events = [], db_setService = []\<rparr>,
      Inr (Some [[(''id'', JNum 1), (''type'', JUndefined), (''getters'', JUndefined),
                  (''setters'', JUndefined), (''properties'', JUndefined)]]))
   \<and> reconcile [[(''id'', JNum 1), (''state'', JObj 11 [(''a'', JNum 2)])]]
       \<lparr>storedServices = [[(''id'', JNum 1)]], events = [], db_setService = []\<rparr>
     = (\<lparr>storedServices = [[(''id'', JNum 1)]], events = [], db_setService = []\<rparr>,
        Inl TypeError)"
  by (simp add: refreshServicesByPolling_def isLoggedIn_def fetchServices_def reconcile_def
      reduce_step_def isSimilar_def get_def keys_def)

section \<open>Reconciliation of a new service, and the membership event\<close>



section \<open>The services built from the hub's response\<close>

lemma reduce_step_projected:
  assumes "i < length response"
    and "\<exists>s\<in>set (storedServices c). strict_eq (get s ''id'') (get (response ! i) ''id'')"
  shows "reduce_step c hasNew (fetchServices response ! i) = (c, Inr hasNew)"
proof -
  have id: "get (fetchServices response ! i) ''id'' = get (response ! i) ''id''"
    and state: "get (fetchServices response ! i) ''state'' = JUndefined"
    using assms(1) by (simp_all add: fetchServices_def get_def)
  from find_service_exists [OF assms(2)] obtain j
    where "find_service (storedServices c) (get (response ! i) ''id'') = Some j"
    by blast
  with id state show ?thesis
    by (simp add: reduce_step_def isSimilar_def)
qed

text \<open>
  Claim C10. A service built by \<^verbatim>\<open>fetchServices\<close> has exactly the properties
  \<^verbatim>\<open>id\<close>, \<^verbatim>\<open>type\<close>, \<^verbatim>\<open>getters\<close>, \<^verbatim>\<open>setters\<close> and \<^verbatim>\<open>properties\<close>, with
  \<^verbatim>\<open>type\<close> read from the response's \<^verbatim>\<open>adapter\<close>; it has no \<^verbatim>\<open>state\<close>, so the
  fetched state given to the comparison is \<^verbatim>\<open>undefined\<close>, the comparison answers
  true whatever the cached state is, and a service that is already cached leaves the
  cycle as it was.
\<close>

theorem fetchServices_has_no_state:
  "length (fetchServices response) = length response
   \<and> (i < length response \<longrightarrow>
        keys (fetchServices response ! i)
          = [''id'', ''type'', ''getters'', ''setters'', ''properties'']
        \<and> get (fetchServices response ! i) ''id'' = get (response ! i) ''id''
        \<and> get (fetchServices response ! i) ''type'' = get (response ! i) ''adapter''
        \<and> get (fetchServices response ! i) ''getters'' = get (response ! i) ''getters''
        \<and> get (fetchServices response ! i) ''setters'' = get (response ! i) ''setters''
        \<and> get (fetchServices response ! i) ''properties'' = get (response ! i) ''properties''
        \<and> get (fetchServices response ! i) ''state'' = JUndefined
        \<and> isSimilar (get (fetchServices response ! i) ''state'') cachedState = Inr True
        \<and> ((\<exists>s\<in>set (storedServices c).
                strict_eq (get s ''id'') (get (fetchServices response ! i) ''id''))
            \<longrightarrow> reduce_step c hasNew (fetchServices response ! i) = (c, Inr hasNew)))"
proof (intro conjI impI)
  show "length (fetchServices response) = length response"
    by (simp add: fetchServices_def)
next
  assume "i < length response"
  then show "keys (fetchServices response ! i)
          = [''id'', ''type'', ''getters'', ''setters'', ''properties'']"
    by (simp add: fetchServices_def keys_def)
next
  assume i: "i < length response"
  then show id: "get (fetchServices response ! i) ''id'' = get (response ! i) ''id''"
    by (simp add: fetchServices_def get_def)
  from i show "get (fetchServices response ! i) ''type'' = get (response ! i) ''adapter''"
    by (simp add: fetchServices_def get_def)
  from i show "get (fetchServices response ! i) ''getters'' = get (response ! i) ''getters''"
    by (simp add: fetchServices_def get_def)
  from i show "get (fetchServices response ! i) ''setters'' = get (response ! i) ''setters''"
    by (simp add: fetchServices_def get_def)
  from i show "get (fetchServices response ! i) ''properties'' = get (response ! i) ''properties''"
    by (simp add: fetchServices_def get_def)
  from i show state: "get (fetchServices response ! i) ''state'' = JUndefined"
    by (simp add: fetchServices_def get_def)
  then show "isSimilar (get (fetchServices response ! i) ''state'') cachedState = Inr True"
    by (simp add: isSimilar_def)
  assume "\<exists>s\<in>set (storedServices c).
                strict_eq (get s ''id'') (get (fetchServices response ! i) ''id'')"
  with id i show "reduce_step c hasNew (fetchServices response ! i) = (c, Inr hasNew)"
    by (simp add: reduce_step_projected)
qed

theorem fetchServices_has_no_state_witness:
  "fetchServices
     [[(''id'', JStr ''cam''), (''adapter'', JStr ''ip-camera''),
       (''state'', JObj 7 [(''on'', JBool True)]), (''getters'', JObj 8 []),
       (''setters'', JObj 9 [])]]
   = [[(''id'', JStr ''cam''), (''type'', JStr ''ip-camera''), (''getters'', JObj 8 []),
       (''setters'', JObj 9 []), (''properties'', JUndefined)]]
   \<and> reduce_step
       \<lparr>storedServices = [[(''id'', JStr ''cam''), (''state'', JObj 3 [(''on'', JBool False)])]],
        events = [], db_setService = []\<rparr>
       False
       (fetchServices
          [[(''id'', JStr ''cam''), (''adapter'', JStr ''ip-camera''),
            (''state'', JObj 7 [(''on'', JBool True)]), (''getters'', JObj 8 []),
            (''setters'', JObj 9 [])]] ! 0)
     = (\<lparr>storedServices = [[(''id'', JStr ''cam''), (''state'', JObj 3 [(''on'', JBool False)])]],
         events = [], db_setService = []\<rparr>, Inr False)"
proof -
  let ?resp = "[[(''id'', JStr ''cam''), (''adapter'', JStr ''ip-camera''),
       (''state'', JObj 7 [(''on'', JBool True)]), (''getters'', JObj 8 []),
       (''setters'', JObj 9 [])]]"
  let ?c = "\<lparr>storedServices = [[(''id'', JStr ''cam''), (''state'', JObj 3 [(''on'', JBool False)])]],
        events = [], db_setService = []\<rparr>"
  have i: "0 < length ?resp" by simp
  have m: "\<exists>s\<in>set (storedServices ?c).
                strict_eq (get s ''id'') (get (fetchServices ?resp ! 0) ''id'')"
    by (simp add: fetchServices_def get_def)
  from fetchServices_has_no_state [of ?resp 0 _ ?c False] i m
  have "reduce_step ?c False (fetchServices ?resp ! 0) = (?c, Inr False)"
    by blast
  moreover have "fetchServices ?resp
   = [[(''id'', JStr ''cam''), (''type'', JStr ''ip-camera''), (''getters'', JObj 8 []),
       (''setters'', JObj 9 []), (''properties'', JUndefined)]]"
    by (simp add: fetchServices_def get_def)
  ultimately show ?thesis by simp
qed

text \<open>
  The cycle as the instance runs it, on the services built from the hub's response:
  it always resolves, with nothing when no session is held and with the fetched list
  otherwise.
\<close>

lemma refreshServicesByPolling_resolves:
  "\<exists>c'. refreshServicesByPolling session response c =
     (c', Inr (if isLoggedIn session then Some (fetchServices response) else None))"
proof -
  have "\<forall>f\<in>set (fetchServices response). for_in_keys (get f ''state'') = []"
    by (auto simp: fetchServices_def get_def)
  then obtain c1 h where "reduce_services (fetchServices response) c False = (c1, Inr h)"
    using reduce_services_no_keys [of "fetchServices response" c False] by blast
  then obtain c' where "reconcile (fetchServices response) c = (c', Inr (fetchServices response))"
    using reconcile_resolves by blast
  then show ?thesis
    by (simp add: refreshServicesByPolling_def)
qed

section \<open>The polling scheduler\<close>

text \<open>
  As long as polling is never switched off while a cycle is outstanding, every state
  the scheduler reaches is in single flight, \<^verbatim>\<open>schedulePoll\<close> does nothing while a
  timeout is armed or a cycle is outstanding, and the settlement of a cycle, fulfilled
  or rejected, arms the next timeout exactly when polling is enabled at that moment.
\<close>

lemmas sched_defs =
  togglePolling_def schedulePoll_def setTimeout_def clearTimeout_def handle_truthy_def
  timer_fires_def cycle_settles_def

lemma single_flight_new: "single_flight new_scheduler"
  by (simp add: single_flight_def new_scheduler_def)

lemma armed_cases:
  "outstanding s + length (armed s) \<le> 1 \<Longrightarrow>
   (armed s = [] \<and> outstanding s \<le> 1) \<or> (\<exists>h. armed s = [h] \<and> outstanding s = 0)"
  by (cases "armed s") auto

lemma single_flight_step:
  assumes "single_flight s" and "ev = TogglePolling False \<longrightarrow> outstanding s = 0"
  shows "single_flight (sched_step s ev)"
proof -
  from assms(1) have "outstanding s + length (armed s) \<le> 1"
    by (simp add: single_flight_def)
  then consider "armed s = []" "outstanding s = 0"
    | "armed s = []" "outstanding s = 1"
    | h where "armed s = [h]" "outstanding s = 0"
    using armed_cases [of s] by (auto simp: le_Suc_eq)
  then show ?thesis
  proof cases
    case 1
    with assms show ?thesis
      by (cases ev) (auto simp: single_flight_def sched_defs Let_def split: option.splits outcome.splits)
  next
    case 2
    with assms show ?thesis
      by (cases ev) (auto simp: single_flight_def sched_defs Let_def split: option.splits outcome.splits)
  next
    case 3
    with assms show ?thesis
      by (cases ev) (auto simp: single_flight_def sched_defs Let_def split: option.splits outcome.splits)
  qed
qed

lemma single_flight_run:
  "single_flight s \<Longrightarrow> never_disabled_in_flight s evs \<Longrightarrow> single_flight (sched_run evs s)"
proof (induction evs arbitrary: s)
  case Nil
  then show ?case by (simp add: sched_run_def)
next
  case (Cons ev evs)
  from Cons.prems have "single_flight (sched_step s ev)"
    by (simp add: single_flight_step)
  with Cons.prems Cons.IH [of "sched_step s ev"] show ?case
    by (simp add: sched_run_def)
qed

lemma single_flight_outstanding: "single_flight s \<Longrightarrow> outstanding s \<le> 1"
  by (simp add: single_flight_def)

lemma schedulePoll_noop_when_pending:
  "single_flight s \<Longrightarrow> 0 < outstanding s \<or> armed s \<noteq> [] \<Longrightarrow> schedulePoll s = s"
  by (cases "armed s") (auto simp: single_flight_def schedulePoll_def handle_truthy_def)

lemma cycle_settles_rearms:
  "0 < outstanding s \<Longrightarrow>
   armed (cycle_settles r s) =
     (if isPollingEnabled s then armed s @ [Suc (last_handle s)] else armed s)
   \<and> outstanding (cycle_settles r s) = outstanding s - 1
   \<and> console_error (cycle_settles r s) =
       (case r of Fulfilled \<Rightarrow> console_error s
        | Rejected e \<Rightarrow> console_error s @
            [''Polling has failed, scheduling one more attempt: '' @ e])"
  by (auto simp: sched_defs Let_def split: outcome.splits)

lemma togglePolling_on_noop_when_pending:
  assumes "single_flight s" and "isPollingEnabled s"
    and "0 < outstanding s \<or> armed s \<noteq> []"
  shows "togglePolling True s = s"
proof -
  from assms(2) have "s\<lparr>isPollingEnabled := True\<rparr> = s" by (cases s) simp
  with assms(1,3) show ?thesis
    by (simp add: togglePolling_def schedulePoll_noop_when_pending)
qed

lemma togglePolling_off_cancels:
  "single_flight s \<Longrightarrow> armed (togglePolling False s) = []"
  by (cases "armed s")
    (auto simp: single_flight_def togglePolling_def clearTimeout_def Let_def
          split: option.splits)

text \<open>
  Claim C4. Single flight does not hold for every run. Polling is switched on, the
  timeout fires and its cycle is outstanding; polling is switched off, which drops the
  handle, and on again: \<^verbatim>\<open>schedulePoll\<close> finds no handle and arms a second timeout
  although the first cycle has not settled. When that timeout fires, two cycles are
  outstanding.
\<close>

theorem schedulePoll_second_cycle_in_flight:
  "sched_run [TogglePolling True, TimerFires 1, TogglePolling False, TogglePolling True]
     new_scheduler
   = \<lparr>isPollingEnabled = True, nextPollTimeout = Some 2, armed = [2],
      last_handle = 2, outstanding = 1, console_error = []\<rparr>
   \<and> sched_run [TogglePolling True, TimerFires 1, TogglePolling False, TogglePolling True,
                TimerFires 2]
     new_scheduler
   = \<lparr>isPollingEnabled = True, nextPollTimeout = Some 2, armed = [],
      last_handle = 2, outstanding = 2, console_error = []\<rparr>"
  by (simp add: sched_run_def new_scheduler_def sched_defs Let_def)

text \<open>
  Claim C5. Switching polling off does not always leave no timeout armed. After the
  run above has armed its second timeout, the first cycle settles: the handler drops
  the handle of the second timeout and arms a third. Switching polling off then clears
  the third timeout only; the second stays armed and will start a cycle while polling
  is off.
\<close>

theorem togglePolling_leaves_timeout_armed:
  "sched_run [TogglePolling True, TimerFires 1, TogglePolling False, TogglePolling True,
              CycleSettles Fulfilled]
     new_scheduler
   = \<lparr>isPollingEnabled = True, nextPollTimeout = Some 3, armed = [2, 3],
      last_handle = 3, outstanding = 0, console_error = []\<rparr>
   \<and> sched_run [TogglePolling True, TimerFires 1, TogglePolling False, TogglePolling True,
              CycleSettles Fulfilled, TogglePolling False]
     new_scheduler
   = \<lparr>isPollingEnabled = False, nextPollTimeout = None, armed = [2],
      last_handle = 3, outstanding = 0, console_error = []\<rparr>"
  by (simp add: sched_run_def new_scheduler_def sched_defs Let_def)

section \<open>The box registry\<close>




lemma watch_frozen: "boxes_frozen r \<Longrightarrow> watch found r = r"
  by (induction found) (auto simp: service_found_def)




text \<open>
  Claim C9. On the registry the constructor builds, an \<^verbatim>\<open>added\<close> advertisement
  makes the callback raise a TypeError at \<^verbatim>\<open>push\<close>, the list being frozen: the box
  is not appended and \<^verbatim>\<open>selectBox\<close> is not called, although no box has been
  selected.
\<close>

theorem service_found_push_raises:
  "service_found ''added''
     \<lparr>addresses = [''10.0.0.2''], port = 443, txtRecord_name = ''box''\<rparr>
     (new_registry False [] []) = Inl TypeError
   \<and> initDiscovery False
       [(''added'', \<lparr>addresses = [''10.0.0.2''], port = 443, txtRecord_name = ''box''\<rparr>)]
       (new_registry False [] [])
     = \<lparr>boxes = [], boxes_frozen = True, settings_configured = False, settings_url = [],
        settings_ipaddrs = [], registry_errors = [], plugin_calls = []\<rparr>"
  by (simp add: service_found_def new_registry_def initDiscovery_def)

section \<open>The user session\<close>

lemma session_token_exact:
  "take (length ''session_token='') part = ''session_token'' \<Longrightarrow> part = ''session_token''"
proof -
  assume a: "take (length ''session_token='') part = ''session_token''"
  then have "length (take (length ''session_token='') part) = 13" by simp
  then have "length part = 13" by (simp add: min_def split: if_splits)
  with a show ?thesis by simp
qed

lemma session_scan_continue:
  "\<forall>part\<in>set rest. take (length ''session_token'') part \<noteq> ''session_token'' \<Longrightarrow>
   session_scan passed rest s = (s, Inr ())"
proof (induction rest arbitrary: passed)
  case Nil
  then show ?case by simp
next
  case (Cons part rest)
  then have "take (length ''session_token='') part \<noteq> ''session_token''"
    using session_token_exact [of part] by auto
  with Cons show ?case by simp
qed

lemma session_scan_resolved:
  "session_scan passed rest s = (s', Inr u) \<Longrightarrow> s' = s"
  by (induction rest arbitrary: passed) (auto split: if_splits)

lemma session_scan_thrown:
  "session_scan passed rest s = (s', Inl e) \<Longrightarrow>
   e = Error ''Redirecting to a URL without session''
   \<and> isLoggedIn (settings_session s')
   \<and> (\<exists>before part after. rest = before @ part # after
        \<and> take (length ''session_token'') part = ''session_token''
        \<and> location_search_assigned s' =
            Some (join_with CHR ''&'' (passed @ before @ after)))"
proof (induction rest arbitrary: passed)
  case Nil
  then show ?case by simp
next
  case (Cons part rest)
  show ?case
  proof (cases "take (length ''session_token='') part = ''session_token''")
    case True
    then have part: "part = ''session_token''" by (rule session_token_exact)
    with Cons.prems have e: "e = Error ''Redirecting to a URL without session''"
      and s': "s' = s\<lparr>settings_session := Some (spaces_to_plus ''session_token''),
                 location_search_assigned := Some (join_with CHR ''&'' (passed @ rest))\<rparr>"
      by auto
    from part s' have "part # rest = [] @ part # rest
        \<and> take (length ''session_token'') part = ''session_token''
        \<and> location_search_assigned s' = Some (join_with CHR ''&'' (passed @ [] @ rest))"
      by simp
    then have "\<exists>before p after. part # rest = before @ p # after
        \<and> take (length ''session_token'') p = ''session_token''
        \<and> location_search_assigned s' =
            Some (join_with CHR ''&'' (passed @ before @ after))"
      by blast
    with e s' show ?thesis
      by (simp add: isLoggedIn_def spaces_to_plus_def)
  next
    case False
    with Cons.prems have "session_scan (passed @ [part]) rest s = (s', Inl e)" by simp
    from Cons.IH [OF this] obtain before p after where
      e: "e = Error ''Redirecting to a URL without session''"
      and logged: "isLoggedIn (settings_session s')"
      and rest: "rest = before @ p # after"
      and p: "take (length ''session_token'') p = ''session_token''"
      and assigned: "location_search_assigned s' =
            Some (join_with CHR ''&'' ((passed @ [part]) @ before @ after))"
      by blast
    from rest p assigned have "part # rest = (part # before) @ p # after
        \<and> take (length ''session_token'') p = ''session_token''
        \<and> location_search_assigned s' =
            Some (join_with CHR ''&'' (passed @ (part # before) @ after))"
      by simp
    then have "\<exists>before p after. part # rest = before @ p # after
        \<and> take (length ''session_token'') p = ''session_token''
        \<and> location_search_assigned s' =
            Some (join_with CHR ''&'' (passed @ before @ after))"
      by blast
    with e logged show ?thesis by simp
  qed
qed

text \<open>
  Claim C6, as stated, fails twice. A query string \<^verbatim>\<open>?session_token=XYZ\<close> is not
  recognised: nothing is stored, nothing is assigned and the promise resolves. A query
  string \<^verbatim>\<open>?session_token\<close> is recognised, and the method does not return a
  redirect value: it throws an Error.
\<close>

theorem initUserSession_counterexample:
  "initUserSession
     \<lparr>settings_session = None, location_search = ''?session_token=XYZ'',
      location_search_assigned = None\<rparr>
   = (\<lparr>settings_session = None, location_search = ''?session_token=XYZ'',
       location_search_assigned = None\<rparr>, Inr ())
   \<and> initUserSession
     \<lparr>settings_session = None, location_search = ''?session_token'',
      location_search_assigned = None\<rparr>
   = (\<lparr>settings_session = Some ''session_token'', location_search = ''?session_token'',
       location_search_assigned = Some []\<rparr>,
      Inl (Error ''Redirecting to a URL without session''))"
  by (simp add: initUserSession_def isLoggedIn_def spaces_to_plus_def)

text \<open>
  Claim C6, amended. When a session is already held, or when no parameter of the query
  string begins with \<^verbatim>\<open>session_token\<close>, \<^verbatim>\<open>_initUserSession\<close> resolves and changes
  nothing; whenever it resolves it has changed nothing. The redirect is signalled by
  throwing \<^verbatim>\<open>Error('Redirecting to a URL without session')\<close> and in no other way:
  when the method throws, no session was held before, a non-empty session is held
  after, and \<^verbatim>\<open>location.search\<close> has been assigned the query string without the
  parameter that was recognised.
\<close>

theorem initUserSession_outcomes:
  "(isLoggedIn (settings_session s) \<longrightarrow> initUserSession s = (s, Inr ()))
   \<and> ((\<forall>part\<in>set (split_on CHR ''&'' (drop 1 (location_search s))).
          take (length ''session_token'') part \<noteq> ''session_token'')
      \<longrightarrow> initUserSession s = (s, Inr ()))
   \<and> (initUserSession s = (s', Inr u) \<longrightarrow> s' = s)
   \<and> (initUserSession s = (s', Inl e) \<longrightarrow>
        e = Error ''Redirecting to a URL without session''
        \<and> \<not> isLoggedIn (settings_session s)
        \<and> isLoggedIn (settings_session s')
        \<and> (\<exists>before part after.
              split_on CHR ''&'' (drop 1 (location_search s)) = before @ part # after
              \<and> take (length ''session_token'') part = ''session_token''
              \<and> location_search_assigned s' =
                  Some (join_with CHR ''&'' (before @ after))))"
proof (intro conjI impI)
  assume "isLoggedIn (settings_session s)"
  then show "initUserSession s = (s, Inr ())"
    by (simp add: initUserSession_def)
next
  assume "\<forall>part\<in>set (split_on CHR ''&'' (drop 1 (location_search s))).
          take (length ''session_token'') part \<noteq> ''session_token''"
  then show "initUserSession s = (s, Inr ())"
    by (simp add: initUserSession_def session_scan_continue)
next
  assume "initUserSession s = (s', Inr u)"
  then show "s' = s"
    by (auto simp: initUserSession_def split: if_splits dest: session_scan_resolved)
next
  assume thrown: "initUserSession s = (s', Inl e)"
  then show out: "\<not> isLoggedIn (settings_session s)"
    by (auto simp: initUserSession_def split: if_splits)
  with thrown have scan:
    "session_scan [] (split_on CHR ''&'' (drop 1 (location_search s))) s = (s', Inl e)"
    by (simp add: initUserSession_def)
  from session_scan_thrown [OF scan]
  show "e = Error ''Redirecting to a URL without session''"
    and "isLoggedIn (settings_session s')"
    and "\<exists>before part after.
              split_on CHR ''&'' (drop 1 (location_search s)) = before @ part # after
              \<and> take (length ''session_token'') part = ''session_token''
              \<and> location_search_assigned s' =
                  Some (join_with CHR ''&'' (before @ after))"
    by simp_all
qed

theorem initUserSession_outcomes_witness:
  "initUserSession
     \<lparr>settings_session = Some ''abc'', location_search = ''?session_token'',
      location_search_assigned = None\<rparr>
   = (\<lparr>settings_session = Some ''abc'', location_search = ''?session_token'',
       location_search_assigned = None\<rparr>, Inr ())
   \<and> initUserSession
     \<lparr>settings_session = None, location_search = ''?a=b&c=d'',
      location_search_assigned = None\<rparr>
   = (\<lparr>settings_session = None, location_search = ''?a=b&c=d'',
       location_search_assigned = None\<rparr>, Inr ())
   \<and> initUserSession
     \<lparr>settings_session = None, location_search = ''?a=b&session_token&c=d'',
      location_search_assigned = None\<rparr>
   = (\<lparr>settings_session = Some ''session_token'',
       location_search = ''?a=b&session_token&c=d'',
       location_search_assigned = Some ''a=b&c=d''\<rparr>,
      Inl (Error ''Redirecting to a URL without session''))
   \<and> isLoggedIn (Some ''session_token'')"
proof -
  let ?in = "\<lparr>settings_session = Some ''abc'', location_search = ''?session_token'',
      location_search_assigned = None\<rparr>"
  let ?plain = "\<lparr>settings_session = None, location_search = ''?a=b&c=d'',
      location_search_assigned = None\<rparr>"
  let ?tok = "\<lparr>settings_session = None, location_search = ''?a=b&session_token&c=d'',
      location_search_assigned = None\<rparr>"
  let ?tok' = "\<lparr>settings_session = Some ''session_token'',
       location_search = ''?a=b&session_token&c=d'',
       location_search_assigned = Some ''a=b&c=d''\<rparr>"
  have logged: "isLoggedIn (settings_session ?in)"
    by (simp add: isLoggedIn_def)
  have absent: "\<forall>part\<in>set (split_on CHR ''&'' (drop 1 (location_search ?plain))).
          take (length ''session_token'') part \<noteq> ''session_token''"
    by simp
  have thrown: "initUserSession ?tok = (?tok', Inl (Error ''Redirecting to a URL without session''))"
    by (simp add: initUserSession_def isLoggedIn_def spaces_to_plus_def)
  from initUserSession_outcomes [where s = ?in] logged
  have a: "initUserSession ?in = (?in, Inr ())" by blast
  from initUserSession_outcomes [where s = ?plain] absent
  have b: "initUserSession ?plain = (?plain, Inr ())" by blast
  from initUserSession_outcomes [where s = ?tok and s' = ?tok'
      and e = "Error ''Redirecting to a URL without session''"] thrown
  have c: "isLoggedIn (settings_session ?tok')" by blast
  from a b c thrown show ?thesis by simp
qed

end
